theory Spec2Isabelle
  imports Main "HOL-Library.Word" "HOL-Library.AList"
begin

section \<open>The VoltDB Go client connection (voltdbclient/conn.go)\<close>

text \<open>
  A shallow embedding of \<^verbatim>\<open>src/voltdbclient/conn.go\<close>. Every method of the file is a
  function from the state of the process (\<open>world\<close>) to an \<open>outcome\<close>: the call returns
  a value and a new state, it blocks for ever on a channel receive, or it panics.

  Go passes a method receiver declared as \<^verbatim>\<open>(vc VoltConn)\<close> by value: the body works on a
  copy of the struct. Maps, pointers and interfaces inside the struct are references and
  are shared with the caller's struct; the scalar fields are not. The model follows this:
  a \<open>VoltConn\<close> is a value, its maps are addresses into the heaps of \<open>world\<close>.
\<close>

subsection \<open>Values\<close>

type_synonym int64 = "64 word"
type_synonym int32 = "32 word"
type_synonym byte = "8 word"
type_synonym ref = nat
type_synonym goerror = "string option" \<comment> \<open>Go's \<^verbatim>\<open>error\<close>: \<open>None\<close> is \<^verbatim>\<open>nil\<close>\<close>
type_synonym chan = int64 \<comment> \<open>the delivery channel the listener makes for a handle\<close>

text \<open>
  \<^verbatim>\<open>VoltRows\<close> and \<^verbatim>\<open>VoltResult\<close> are declared outside \<^verbatim>\<open>conn.go\<close>. The file uses of
  \<^verbatim>\<open>VoltRows\<close> only its accessor \<^verbatim>\<open>error()\<close> and the zero value \<^verbatim>\<open>VoltRows{}\<close>, and of
  \<^verbatim>\<open>VoltResult\<close> only the zero value; the rest of their content is a payload.
\<close>

record VoltRows =
  rows_error :: goerror
  rows_data :: "nat list"

record VoltResult =
  result_data :: "nat list"

text \<open>A value of the interface \<^verbatim>\<open>driver.Rows\<close>: nil, a \<^verbatim>\<open>VoltRows\<close>, or another type.\<close>

datatype driver_Rows = NilRows | VRows VoltRows | OtherRows nat

datatype driver_Result = NilResult | VResult VoltResult | OtherResult nat

text \<open>A \<^verbatim>\<open>driver.Value\<close>, as far as the arguments of a call are looked at (they are only passed on).\<close>

datatype driver_Value = VNil | VInt int64 | VBool bool | VBytes "byte list" | VString string

definition VoltRows_zero :: VoltRows where
  "VoltRows_zero = \<lparr>rows_error = None, rows_data = []\<rparr>"

definition VoltResult_zero :: VoltResult where
  "VoltResult_zero = \<lparr>result_data = []\<rparr>"

text \<open>
  What a receive \<^verbatim>\<open><-c\<close> meets: nothing is ever delivered (the receive blocks for ever),
  the channel was closed (the receive yields the zero value), or a value arrives. Which one
  is decided by the listener goroutine and the server, so it is an argument of the model.
\<close>

datatype 'a recv = Never | ChanClosed | Recv 'a

text \<open>
  What \<^verbatim>\<open>reflect.Select\<close> hands back next to the chosen index: \<^verbatim>\<open>ok = false\<close>, a value whose
  kind is not \<^verbatim>\<open>reflect.Interface\<close>, or a value of the interface \<^verbatim>\<open>driver.Rows\<close>.
\<close>

datatype selected = SelClosed | SelNotInterface | SelRecv driver_Rows

subsection \<open>Structs\<close>

record connectionData =
  hostId :: int32
  connId :: int64
  leaderAddr :: int32
  buildString :: string

text \<open>
  \<^verbatim>\<open>reader\<close> and \<^verbatim>\<open>writer\<close> are interfaces: nil or the address of the TCP connection.
  \<^verbatim>\<open>execs\<close> and \<^verbatim>\<open>queries\<close> are Go maps, that is references: the field holds the address of
  the map. \<^verbatim>\<open>nlwg\<close> (a \<^verbatim>\<open>sync.WaitGroup\<close>) only synchronises goroutines and has no field here.
\<close>

record VoltConn =
  reader :: "ref option"
  writer :: "ref option"
  connData :: "connectionData option"
  execs :: ref
  queries :: ref
  netListener :: ref
  isOpen :: bool

text \<open>
  The field \<^verbatim>\<open>conn *VoltConn\<close> of a future points to the receiver copy of the call that made
  the future (\<^verbatim>\<open>&vc\<close> in \<^verbatim>\<open>QueryAsync\<close> and \<^verbatim>\<open>ExecAsync\<close>). Nothing writes through that
  pointer, so the model stores the copy itself.
\<close>

record VoltQueryResult =
  vqr_conn :: VoltConn
  vqr_han :: int64
  vqr_ch :: chan
  vqr_rows :: driver_Rows
  vqr_err :: goerror
  vqr_active :: bool

record VoltExecResult =
  ver_conn :: VoltConn
  ver_han :: int64
  ver_ch :: chan
  ver_result :: driver_Result
  ver_err :: goerror
  ver_active :: bool

text \<open>
  Modelled from the spec: \<^verbatim>\<open>NetworkListener\<close> is declared outside \<^verbatim>\<open>conn.go\<close>. The spec says
  that it owns the registry of pending handles, one registry for execs and one for queries,
  and that \<^verbatim>\<open>stop()\<close> signals the loop to end. Only the calls that \<^verbatim>\<open>conn.go\<close> makes are
  modelled; the listener's own loop is not.
\<close>

record NetworkListener =
  nl_execs :: "int64 list"
  nl_queries :: "int64 list"
  nl_stopped :: bool

text \<open>
  A TCP connection as the writer sees it. A write to a closed or broken connection fails
  and sends nothing. \<^verbatim>\<open>tcp_broken\<close> is set by the network, not by the program.
\<close>

record tcp =
  tcp_closed :: bool
  tcp_broken :: bool
  tcp_out :: "byte list"

subsection \<open>The state of the process\<close>

text \<open>
  \<open>qHandle\<close> is the package variable. \<open>exec_maps\<close> and \<open>query_maps\<close> hold the Go maps (as
  association lists with distinct keys), \<open>exec_results\<close> and \<open>query_results\<close> the futures
  allocated by \<^verbatim>\<open>new\<close>; an address is an index, and an address past the end is a nil pointer.
  \<open>handles_issued\<close> is a history variable: the values \<^verbatim>\<open>atomic.AddInt64(&qHandle, 1)\<close> has
  returned so far, oldest first. The program never reads it.
\<close>

record world =
  qHandle :: int64
  handles_issued :: "int64 list"
  exec_maps :: "ref \<Rightarrow> (int64 \<times> ref) list"
  query_maps :: "ref \<Rightarrow> (int64 \<times> ref) list"
  exec_results :: "VoltExecResult list"
  query_results :: "VoltQueryResult list"
  listeners :: "ref \<Rightarrow> NetworkListener"
  tcps :: "ref \<Rightarrow> tcp"

datatype 'a outcome = Returns 'a world | Blocks world | Panics string

fun and_then :: "'a outcome \<Rightarrow> ('a \<Rightarrow> world \<Rightarrow> 'b outcome) \<Rightarrow> 'b outcome" where
  "and_then (Returns x w) f = f x w"
| "and_then (Blocks w) f = Blocks w"
| "and_then (Panics s) f = Panics s"

fun world_after :: "'a outcome \<Rightarrow> world option" where
  "world_after (Returns x w) = Some w"
| "world_after (Blocks w) = Some w"
| "world_after (Panics s) = None"

definition world0 :: world where
  "world0 = \<lparr>qHandle = 0, handles_issued = [],
     exec_maps = (\<lambda>m. []), query_maps = (\<lambda>m. []),
     exec_results = [], query_results = [],
     listeners = (\<lambda>l. \<lparr>nl_execs = [], nl_queries = [], nl_stopped = False\<rparr>),
     tcps = (\<lambda>r. \<lparr>tcp_closed = False, tcp_broken = False, tcp_out = []\<rparr>)\<rparr>"

subsection \<open>Handle allocation\<close>

text \<open>\<^verbatim>\<open>atomic.AddInt64(&qHandle, 1)\<close>: adds 1 with 64-bit wrap-around, returns the new value.\<close>

definition AddInt64_qHandle :: "world \<Rightarrow> int64 \<times> world" where
  "AddInt64_qHandle w =
     (let n = qHandle w + 1
      in (n, w\<lparr>qHandle := n, handles_issued := handles_issued w @ [n]\<rparr>))"

subsection \<open>The listener's registry and the network\<close>

text \<open>
  Modelled from the spec: \<^verbatim>\<open>registerExec\<close>, \<^verbatim>\<open>registerQuery\<close>, \<^verbatim>\<open>removeExec\<close>,
  \<^verbatim>\<open>removeQuery\<close> and \<^verbatim>\<open>stop\<close> of the listener are outside \<^verbatim>\<open>conn.go\<close>. Registering a handle
  enters it in the registry and returns its delivery channel; removing deletes it.
\<close>

definition nl_registerExec :: "ref \<Rightarrow> int64 \<Rightarrow> world \<Rightarrow> chan \<times> world" where
  "nl_registerExec l handle w =
     (handle, w\<lparr>listeners := (listeners w)
        (l := (listeners w l)\<lparr>nl_execs := List.insert handle (nl_execs (listeners w l))\<rparr>)\<rparr>)"

definition nl_registerQuery :: "ref \<Rightarrow> int64 \<Rightarrow> world \<Rightarrow> chan \<times> world" where
  "nl_registerQuery l handle w =
     (handle, w\<lparr>listeners := (listeners w)
        (l := (listeners w l)\<lparr>nl_queries := List.insert handle (nl_queries (listeners w l))\<rparr>)\<rparr>)"

definition nl_removeExec :: "ref \<Rightarrow> int64 \<Rightarrow> world \<Rightarrow> world" where
  "nl_removeExec l handle w =
     w\<lparr>listeners := (listeners w)
        (l := (listeners w l)\<lparr>nl_execs := removeAll handle (nl_execs (listeners w l))\<rparr>)\<rparr>"

definition nl_removeQuery :: "ref \<Rightarrow> int64 \<Rightarrow> world \<Rightarrow> world" where
  "nl_removeQuery l handle w =
     w\<lparr>listeners := (listeners w)
        (l := (listeners w l)\<lparr>nl_queries := removeAll handle (nl_queries (listeners w l))\<rparr>)\<rparr>"

definition nl_stop :: "ref \<Rightarrow> world \<Rightarrow> world" where
  "nl_stop l w = w\<lparr>listeners := (listeners w)(l := (listeners w l)\<lparr>nl_stopped := True\<rparr>)\<rparr>"

definition tcp_Write :: "ref \<Rightarrow> byte list \<Rightarrow> world \<Rightarrow> goerror \<times> world" where
  "tcp_Write r bs w =
     (if tcp_closed (tcps w r) \<or> tcp_broken (tcps w r) then (Some ''write failed'', w)
      else (None, w\<lparr>tcps := (tcps w)(r := (tcps w r)\<lparr>tcp_out := tcp_out (tcps w r) @ bs\<rparr>)\<rparr>))"

definition tcp_Close :: "ref \<Rightarrow> world \<Rightarrow> goerror \<times> world" where
  "tcp_Close r w =
     (if tcp_closed (tcps w r) then (Some ''use of closed network connection'', w)
      else (None, w\<lparr>tcps := (tcps w)(r := (tcps w r)\<lparr>tcp_closed := True\<rparr>)\<rparr>))"

text \<open>Modelled from the spec: \<^verbatim>\<open>writeInt\<close> is outside \<^verbatim>\<open>conn.go\<close>; the length prefix is 4 bytes, big-endian.\<close>

definition writeInt :: "int32 \<Rightarrow> byte list" where
  "writeInt n = [ucast (drop_bit 24 n), ucast (drop_bit 16 n), ucast (drop_bit 8 n), ucast n]"

subsection \<open>serializeQuery\<close>

text \<open>
  \<^verbatim>\<open>serializeStatement\<close> is a collaborator outside \<^verbatim>\<open>conn.go\<close>; it is the argument \<open>ser\<close>, and
  \<open>Inl e\<close> is its non-nil error. The two \<^verbatim>\<open>io.Copy\<close> calls drop their results. \<^verbatim>\<open>io.Copy\<close> to a
  nil writer calls \<^verbatim>\<open>Write\<close> on a nil interface and panics (the message is never empty).
\<close>

definition serializeQuery ::
  "(string \<Rightarrow> int64 \<Rightarrow> driver_Value list \<Rightarrow> string + byte list) \<Rightarrow> VoltConn \<Rightarrow> ref option \<Rightarrow> string \<Rightarrow>
   int64 \<Rightarrow> driver_Value list \<Rightarrow> world \<Rightarrow> goerror outcome" where
  "serializeQuery ser vc wr procedure handle args w =
     (case ser procedure handle args of
        Inl err \<Rightarrow> Returns (Some err) w
      | Inr call \<Rightarrow>
          (let netmsg = writeInt (of_nat (length call)) @ call
           in case wr of
                None \<Rightarrow> Panics ''invalid memory address or nil pointer dereference''
              | Some r \<Rightarrow> (let (copy_err, w') = tcp_Write r netmsg w in Returns None w')))"

subsection \<open>The connection's maps\<close>

text \<open>
  The four methods have value receivers, but \<^verbatim>\<open>vc.execs\<close> and \<^verbatim>\<open>vc.queries\<close> are references:
  the insert and the delete act on the map that every copy of the struct shares.
\<close>

definition registerExec :: "VoltConn \<Rightarrow> int64 \<Rightarrow> ref \<Rightarrow> world \<Rightarrow> world" where
  "registerExec vc handle ver w =
     w\<lparr>exec_maps := (exec_maps w)(execs vc := AList.update handle ver (exec_maps w (execs vc)))\<rparr>"

definition registerQuery :: "VoltConn \<Rightarrow> int64 \<Rightarrow> ref \<Rightarrow> world \<Rightarrow> world" where
  "registerQuery vc handle vcr w =
     w\<lparr>query_maps := (query_maps w)(queries vc := AList.update handle vcr (query_maps w (queries vc)))\<rparr>"

definition removeExec :: "VoltConn \<Rightarrow> int64 \<Rightarrow> world \<Rightarrow> world" where
  "removeExec vc han w =
     w\<lparr>exec_maps := (exec_maps w)(execs vc := AList.delete han (exec_maps w (execs vc)))\<rparr>"

definition removeQuery :: "VoltConn \<Rightarrow> int64 \<Rightarrow> world \<Rightarrow> world" where
  "removeQuery vc han w =
     w\<lparr>query_maps := (query_maps w)(queries vc := AList.delete han (query_maps w (queries vc)))\<rparr>"

subsection \<open>Pending futures\<close>

definition newVoltQueryResult :: "VoltConn \<Rightarrow> int64 \<Rightarrow> chan \<Rightarrow> world \<Rightarrow> ref \<times> world" where
  "newVoltQueryResult conn han ch w =
     (length (query_results w),
      w\<lparr>query_results := query_results w @
         [\<lparr>vqr_conn = conn, vqr_han = han, vqr_ch = ch, vqr_rows = NilRows, vqr_err = None,
           vqr_active = True\<rparr>]\<rparr>)"

definition newVoltExecResult :: "VoltConn \<Rightarrow> int64 \<Rightarrow> chan \<Rightarrow> world \<Rightarrow> ref \<times> world" where
  "newVoltExecResult conn han ch w =
     (length (exec_results w),
      w\<lparr>exec_results := exec_results w @
         [\<lparr>ver_conn = conn, ver_han = han, ver_ch = ch, ver_result = NilResult, ver_err = None,
           ver_active = True\<rparr>]\<rparr>)"

definition nil_deref :: string where
  "nil_deref = ''invalid memory address or nil pointer dereference''"

definition vqr_setError :: "ref \<Rightarrow> goerror \<Rightarrow> world \<Rightarrow> unit outcome" where
  "vqr_setError p err w =
     (if p < length (query_results w) then
        (let vqr = query_results w ! p;
             w1 = w\<lparr>query_results := (query_results w)[p := vqr\<lparr>vqr_err := err, vqr_active := False\<rparr>]\<rparr>
         in Returns () (removeQuery (vqr_conn vqr) (vqr_han vqr) w1))
      else Panics nil_deref)"

definition setRows :: "ref \<Rightarrow> driver_Rows \<Rightarrow> world \<Rightarrow> unit outcome" where
  "setRows p rows w =
     (if p < length (query_results w) then
        (let vqr = query_results w ! p;
             w1 = w\<lparr>query_results := (query_results w)[p := vqr\<lparr>vqr_rows := rows, vqr_active := False\<rparr>]\<rparr>
         in Returns () (removeQuery (vqr_conn vqr) (vqr_han vqr) w1))
      else Panics nil_deref)"

definition ver_setError :: "ref \<Rightarrow> goerror \<Rightarrow> world \<Rightarrow> unit outcome" where
  "ver_setError p err w =
     (if p < length (exec_results w) then
        (let ver = exec_results w ! p;
             w1 = w\<lparr>exec_results := (exec_results w)[p := ver\<lparr>ver_err := err\<rparr>]\<rparr>;
             w2 = removeExec (ver_conn ver) (ver_han ver) w1
         in Returns () (w2\<lparr>exec_results := (exec_results w2)[p := (exec_results w2 ! p)\<lparr>ver_active := False\<rparr>]\<rparr>))
      else Panics nil_deref)"

definition setResult :: "ref \<Rightarrow> driver_Result \<Rightarrow> world \<Rightarrow> unit outcome" where
  "setResult p result w =
     (if p < length (exec_results w) then
        (let ver = exec_results w ! p
         in if \<not> ver_active ver then Panics ''Tried to set result on inactive exec result''
            else
              (let w1 = w\<lparr>exec_results := (exec_results w)[p := ver\<lparr>ver_result := result\<rparr>]\<rparr>;
                   w2 = removeExec (ver_conn ver) (ver_han ver) w1
               in Returns () (w2\<lparr>exec_results := (exec_results w2)[p := (exec_results w2 ! p)\<lparr>ver_active := False\<rparr>]\<rparr>)))
      else Panics nil_deref)"

text \<open>
  \<^verbatim>\<open>Rows()\<close>. On an active future it receives from the channel; \<open>rcv\<close> is what the receive
  meets. The type assertion \<^verbatim>\<open>rows.(VoltRows)\<close> panics on nil (a closed channel yields nil)
  and on any other type.
\<close>

definition Rows :: "ref \<Rightarrow> driver_Rows recv \<Rightarrow> world \<Rightarrow> (driver_Rows \<times> goerror) outcome" where
  "Rows p rcv w =
     (if p < length (query_results w) then
        (let vqr = query_results w ! p
         in if \<not> vqr_active vqr then
              (case vqr_err vqr of
                 Some e \<Rightarrow> Returns (NilRows, Some e) w
               | None \<Rightarrow> Returns (vqr_rows vqr, None) w)
            else
              (case rcv of
                 Never \<Rightarrow> Blocks w
               | ChanClosed \<Rightarrow> Panics ''interface conversion: interface is nil, not VoltRows''
               | Recv rows \<Rightarrow>
                   (case rows of
                      VRows vrows \<Rightarrow>
                        (case rows_error vrows of
                           Some err \<Rightarrow>
                             and_then (vqr_setError p (Some err) w)
                               (\<lambda>u w'. Returns (NilRows, Some err) w')
                         | None \<Rightarrow>
                             and_then (setRows p rows w)
                               (\<lambda>u w'. Returns (vqr_rows (query_results w' ! p), None) w'))
                    | NilRows \<Rightarrow> Panics ''interface conversion: interface is nil, not VoltRows''
                    | OtherRows t \<Rightarrow> Panics ''interface conversion: not VoltRows'')))
      else Panics nil_deref)"

text \<open>\<^verbatim>\<open>Result()\<close>. A closed channel yields the nil \<^verbatim>\<open>driver.Result\<close>.\<close>

definition Result :: "ref \<Rightarrow> driver_Result recv \<Rightarrow> world \<Rightarrow> (driver_Result \<times> goerror) outcome" where
  "Result p rcv w =
     (if p < length (exec_results w) then
        (let ver = exec_results w ! p
         in if \<not> ver_active ver then Returns (ver_result ver, ver_err ver) w
            else
              (case rcv of
                 Never \<Rightarrow> Blocks w
               | ChanClosed \<Rightarrow>
                   and_then (setResult p NilResult w)
                     (\<lambda>u w'. Returns (ver_result (exec_results w' ! p), None) w')
               | Recv result \<Rightarrow>
                   and_then (setResult p result w)
                     (\<lambda>u w'. Returns (ver_result (exec_results w' ! p), None) w')))
      else Panics nil_deref)"

subsection \<open>Close\<close>

text \<open>
  \<open>Close_body\<close> is the body of \<^verbatim>\<open>Close\<close> on its receiver copy; it returns the copy as the
  body leaves it, the error, and the state. \<open>Close\<close> is the call: the receiver
  \<^verbatim>\<open>(vc VoltConn)\<close> is a value, so the copy is dropped at return and the caller's struct
  keeps its fields. \<^verbatim>\<open>vc.nlwg.Wait()\<close> changes no state.
\<close>

definition Close_body :: "VoltConn \<Rightarrow> world \<Rightarrow> VoltConn \<times> goerror \<times> world" where
  "Close_body vc w =
     (let w1 = nl_stop (netListener vc) w;
          (err, w2) = (case reader vc of None \<Rightarrow> (None, w1) | Some r \<Rightarrow> tcp_Close r w1);
          vc1 = vc\<lparr>reader := None\<rparr>;
          vc2 = vc1\<lparr>writer := None\<rparr>;
          vc3 = vc2\<lparr>connData := None\<rparr>;
          vc4 = vc3\<lparr>isOpen := False\<rparr>
      in (vc4, err, w2))"

definition Close :: "VoltConn \<Rightarrow> world \<Rightarrow> goerror outcome" where
  "Close vc w = (let (vc_copy, err, w') = Close_body vc w in Returns err w')"

subsection \<open>Exec, ExecAsync, Query, QueryAsync\<close>

text \<open>
  \<open>rcv\<close> is what the receive \<^verbatim>\<open><-c\<close> of a synchronous call meets. The async calls return
  the address of the new future, or nil (\<open>None\<close>).
\<close>

definition Exec ::
  "(string \<Rightarrow> int64 \<Rightarrow> driver_Value list \<Rightarrow> string + byte list) \<Rightarrow> driver_Result recv \<Rightarrow> VoltConn \<Rightarrow>
   string \<Rightarrow> driver_Value list \<Rightarrow> world \<Rightarrow> (driver_Result \<times> goerror) outcome" where
  "Exec ser rcv vc query args w =
     (if \<not> isOpen vc then Returns (NilResult, Some ''Connection is closed'') w
      else
        (let (handle, w1) = AddInt64_qHandle w;
             (c, w2) = nl_registerExec (netListener vc) handle w1
         in and_then (serializeQuery ser vc (writer vc) query handle args w2)
              (\<lambda>err w3.
                 case err of
                   Some e \<Rightarrow> Returns (VResult VoltResult_zero, Some e) (nl_removeExec (netListener vc) handle w3)
                 | None \<Rightarrow>
                     (case rcv of
                        Never \<Rightarrow> Blocks w3
                      | ChanClosed \<Rightarrow> Returns (NilResult, None) w3
                      | Recv result \<Rightarrow> Returns (result, None) w3))))"

definition ExecAsync ::
  "(string \<Rightarrow> int64 \<Rightarrow> driver_Value list \<Rightarrow> string + byte list) \<Rightarrow> VoltConn \<Rightarrow>
   string \<Rightarrow> driver_Value list \<Rightarrow> world \<Rightarrow> (ref option \<times> goerror) outcome" where
  "ExecAsync ser vc query args w =
     (if \<not> isOpen vc then Returns (None, Some ''Connection is closed'') w
      else
        (let (handle, w1) = AddInt64_qHandle w;
             (c, w2) = nl_registerExec (netListener vc) handle w1;
             (ver, w3) = newVoltExecResult vc handle c w2;
             w4 = registerExec vc handle ver w3
         in and_then (serializeQuery ser vc (writer vc) query handle args w4)
              (\<lambda>err w5.
                 case err of
                   Some e \<Rightarrow> Returns (None, Some e) (nl_removeExec (netListener vc) handle w5)
                 | None \<Rightarrow> Returns (Some ver, None) w5)))"

definition Query ::
  "(string \<Rightarrow> int64 \<Rightarrow> driver_Value list \<Rightarrow> string + byte list) \<Rightarrow> driver_Rows recv \<Rightarrow> VoltConn \<Rightarrow>
   string \<Rightarrow> driver_Value list \<Rightarrow> world \<Rightarrow> (driver_Rows \<times> goerror) outcome" where
  "Query ser rcv vc query args w =
     (if \<not> isOpen vc then Returns (NilRows, Some ''Connection is closed'') w
      else
        (let (handle, w1) = AddInt64_qHandle w;
             (c, w2) = nl_registerQuery (netListener vc) handle w1
         in and_then (serializeQuery ser vc (writer vc) query handle args w2)
              (\<lambda>err w3.
                 case err of
                   Some e \<Rightarrow> Returns (VRows VoltRows_zero, Some e) (nl_removeQuery (netListener vc) handle w3)
                 | None \<Rightarrow>
                     (case rcv of
                        Never \<Rightarrow> Blocks w3
                      | ChanClosed \<Rightarrow> Returns (NilRows, None) w3
                      | Recv rows \<Rightarrow> Returns (rows, None) w3))))"

definition QueryAsync ::
  "(string \<Rightarrow> int64 \<Rightarrow> driver_Value list \<Rightarrow> string + byte list) \<Rightarrow> VoltConn \<Rightarrow>
   string \<Rightarrow> driver_Value list \<Rightarrow> world \<Rightarrow> (ref option \<times> goerror) outcome" where
  "QueryAsync ser vc query args w =
     (if \<not> isOpen vc then Returns (None, Some ''Connection is closed'') w
      else
        (let (handle, w1) = AddInt64_qHandle w;
             (c, w2) = nl_registerQuery (netListener vc) handle w1;
             (vqr, w3) = newVoltQueryResult vc handle c w2;
             w4 = registerQuery vc handle vqr w3
         in and_then (serializeQuery ser vc (writer vc) query handle args w4)
              (\<lambda>err w5.
                 case err of
                   Some e \<Rightarrow> Returns (None, Some e) (nl_removeQuery (netListener vc) handle w5)
                 | None \<Rightarrow> Returns (Some vqr, None) w5)))"

subsection \<open>Drain, DrainAll, ExecutingQueries\<close>

text \<open>
  The first loop of \<^verbatim>\<open>Drain\<close>: \<open>idx\<close> is the index of the next element, \<open>idxs\<close> and \<open>cases\<close>
  are the slices built so far. \<^verbatim>\<open>vqr.isActive()\<close> on a nil pointer panics (\<open>None\<close>).
\<close>

fun Drain_scan ::
  "VoltQueryResult list \<Rightarrow> ref list \<Rightarrow> nat \<Rightarrow> nat list \<Rightarrow> chan list \<Rightarrow> (nat list \<times> chan list) option" where
  "Drain_scan heap [] idx idxs cases = Some (idxs, cases)"
| "Drain_scan heap (vqr # rest) idx idxs cases =
     (if vqr < length heap then
        (if vqr_active (heap ! vqr)
         then Drain_scan heap rest (Suc idx) (idxs @ [idx]) (cases @ [vqr_ch (heap ! vqr)])
         else Drain_scan heap rest (Suc idx) idxs cases)
      else None)"

text \<open>The body of the second loop after the slices are updated: what is done with the received value.\<close>

definition Drain_deliver :: "ref \<Rightarrow> selected \<Rightarrow> world \<Rightarrow> unit outcome" where
  "Drain_deliver chosenQuery sel w =
     (case sel of
        SelClosed \<Rightarrow> vqr_setError chosenQuery (Some ''Result was not available, channel was closed'') w
      | SelNotInterface \<Rightarrow> vqr_setError chosenQuery (Some ''unexpected return type, not an interface'') w
      | SelRecv rows \<Rightarrow>
          (case rows of
             NilRows \<Rightarrow> vqr_setError chosenQuery (Some ''unexpected return type, not driver.Rows'') w
           | OtherRows t \<Rightarrow> Panics ''interface conversion: not VoltRows''
           | VRows vrows \<Rightarrow>
               (case rows_error vrows of
                  Some err \<Rightarrow> vqr_setError chosenQuery (Some err) w
                | None \<Rightarrow> setRows chosenQuery rows w)))"

text \<open>
  The second loop. Each \<^verbatim>\<open>reflect.Select\<close> blocks until one of the channels is ready; which
  one, and with what, is decided outside the program: \<open>sched\<close> lists the answers of the
  successive \<^verbatim>\<open>reflect.Select\<close> calls, and when it is used up the next call blocks for ever.
  The function returns the answers it has not used. Every slice index is bounds-checked as
  Go does.
\<close>

fun Drain_loop ::
  "ref list \<Rightarrow> nat list \<Rightarrow> chan list \<Rightarrow> (nat \<times> selected) list \<Rightarrow> world \<Rightarrow> (nat \<times> selected) list outcome" where
  "Drain_loop vqrs idxs cases [] w = (if length idxs > 0 then Blocks w else Returns [] w)"
| "Drain_loop vqrs idxs cases ((chosen, sel) # sched) w =
     (if length idxs > 0 then
        (if chosen < length idxs \<and> chosen < length cases then
           (let idx = idxs ! chosen;
                idxs' = butlast (idxs[chosen := last idxs]);
                cases' = butlast (cases[chosen := last cases])
            in if idx < length vqrs then
                 and_then (Drain_deliver (vqrs ! idx) sel w)
                   (\<lambda>u w'. Drain_loop vqrs idxs' cases' sched w')
               else Panics ''index out of range'')
         else Panics ''index out of range'')
      else Returns ((chosen, sel) # sched) w)"

definition Drain :: "VoltConn \<Rightarrow> ref list \<Rightarrow> (nat \<times> selected) list \<Rightarrow> world \<Rightarrow> (nat \<times> selected) list outcome" where
  "Drain vc vqrs sched w =
     (case Drain_scan (query_results w) vqrs 0 [] [] of
        None \<Rightarrow> Panics nil_deref
      | Some (idxs, cases) \<Rightarrow> Drain_loop vqrs idxs cases sched w)"

text \<open>
  Go ranges over a map in an order of its own choosing; the model takes the order of the
  association list. The statements below speak of the elements only.
\<close>

definition ExecutingQueries :: "VoltConn \<Rightarrow> world \<Rightarrow> ref list" where
  "ExecutingQueries vc w = map snd (query_maps w (queries vc))"

definition DrainAll ::
  "VoltConn \<Rightarrow> (nat \<times> selected) list \<Rightarrow> world \<Rightarrow> (ref list \<times> (nat \<times> selected) list) outcome" where
  "DrainAll vc sched w =
     (let result = map snd (query_maps w (queries vc))
      in and_then (Drain vc result sched w) (\<lambda>rest w'. Returns (result, rest) w'))"

subsection \<open>Histories of the process\<close>

text \<open>
  The states a process can be in: it starts with \<open>qHandle = 0\<close>, no map entries and no
  futures; from then on any exported method is called on any connection value, with any
  arguments and any answer of the environment, and the network may break or mend a TCP
  connection. A call that blocks leaves the state it blocked in (other goroutines go on);
  a call that panics ends the process.
\<close>

inductive reachable :: "world \<Rightarrow> bool" where
  reachable_start: "reachable world0"
| reachable_network:
    "reachable w \<Longrightarrow> reachable (w\<lparr>tcps := (tcps w)(r := (tcps w r)\<lparr>tcp_broken := b\<rparr>)\<rparr>)"
| reachable_Close:
    "reachable w \<Longrightarrow> world_after (Close vc w) = Some w' \<Longrightarrow> reachable w'"
| reachable_Exec:
    "reachable w \<Longrightarrow> world_after (Exec ser rcvr vc query args w) = Some w' \<Longrightarrow> reachable w'"
| reachable_ExecAsync:
    "reachable w \<Longrightarrow> world_after (ExecAsync ser vc query args w) = Some w' \<Longrightarrow> reachable w'"
| reachable_Query:
    "reachable w \<Longrightarrow> world_after (Query ser rcvq vc query args w) = Some w' \<Longrightarrow> reachable w'"
| reachable_QueryAsync:
    "reachable w \<Longrightarrow> world_after (QueryAsync ser vc query args w) = Some w' \<Longrightarrow> reachable w'"
| reachable_Rows:
    "reachable w \<Longrightarrow> world_after (Rows p rcvq w) = Some w' \<Longrightarrow> reachable w'"
| reachable_Result:
    "reachable w \<Longrightarrow> world_after (Result p rcvr w) = Some w' \<Longrightarrow> reachable w'"
| reachable_Drain:
    "reachable w \<Longrightarrow> world_after (Drain vc vqrs sched w) = Some w' \<Longrightarrow> reachable w'"
| reachable_DrainAll:
    "reachable w \<Longrightarrow> world_after (DrainAll vc sched w) = Some w' \<Longrightarrow> reachable w'"

text \<open>
  The bookkeeping of the outstanding maps: the keys of a map are distinct, and an entry
  \<open>h \<mapsto> p\<close> of a map leads to a future that is active, carries the handle \<open>h\<close> and belongs
  to a connection that owns this map.
\<close>

definition queries_inv :: "world \<Rightarrow> bool" where
  "queries_inv w =
     ((\<forall>m. distinct (map fst (query_maps w m))) \<and>
      (\<forall>m h p. map_of (query_maps w m) h = Some p \<longrightarrow>
        p < length (query_results w) \<and> vqr_active (query_results w ! p) \<and>
        vqr_han (query_results w ! p) = h \<and> queries (vqr_conn (query_results w ! p)) = m))"

definition execs_inv :: "world \<Rightarrow> bool" where
  "execs_inv w =
     ((\<forall>m. distinct (map fst (exec_maps w m))) \<and>
      (\<forall>m h p. map_of (exec_maps w m) h = Some p \<longrightarrow>
        p < length (exec_results w) \<and> ver_active (exec_results w ! p) \<and>
        ver_han (exec_results w ! p) = h \<and> execs (ver_conn (exec_results w ! p)) = m))"

text \<open>The counter and the history of the handles after \<open>n\<close> allocations.\<close>

definition alloc_inv :: "world \<Rightarrow> bool" where
  "alloc_inv w =
     (qHandle w = word_of_nat (length (handles_issued w)) \<and>
      handles_issued w = map word_of_nat [1..<Suc (length (handles_issued w))])"


text \<open>The three invariants together.\<close>

definition state_inv :: "world \<Rightarrow> bool" where
  "state_inv w = (queries_inv w \<and> execs_inv w \<and> alloc_inv w)"

subsection \<open>Answers of the environment to a drain\<close>


subsection \<open>Example inputs\<close>

definition ex_conn :: VoltConn where
  "ex_conn = \<lparr>reader = Some 0, writer = Some 0, connData = None, execs = 0, queries = 0,
     netListener = 0, isOpen = True\<rparr>"

definition ex_ser_ok :: "string \<Rightarrow> int64 \<Rightarrow> driver_Value list \<Rightarrow> string + byte list" where
  "ex_ser_ok procedure handle args = Inr [1, 2, 3]"

definition ex_ser_fail :: "string \<Rightarrow> int64 \<Rightarrow> driver_Value list \<Rightarrow> string + byte list" where
  "ex_ser_fail procedure handle args = Inl ''cannot serialize''"

definition ex_world_broken :: world where
  "ex_world_broken = world0\<lparr>tcps := (tcps world0)(0 := (tcps world0 0)\<lparr>tcp_broken := True\<rparr>)\<rparr>"

definition ex_rows_a :: driver_Rows where
  "ex_rows_a = VRows \<lparr>rows_error = None, rows_data = [1]\<rparr>"

definition ex_rows_b :: driver_Rows where
  "ex_rows_b = VRows \<lparr>rows_error = None, rows_data = [2]\<rparr>"

definition ex_rows_failed :: driver_Rows where
  "ex_rows_failed = VRows \<lparr>rows_error = Some ''procedure failed'', rows_data = []\<rparr>"

definition ex_world_resolved :: world where
  "ex_world_resolved = world0\<lparr>
     query_results := [\<lparr>vqr_conn = ex_conn, vqr_han = 1, vqr_ch = 1, vqr_rows = ex_rows_a,
        vqr_err = None, vqr_active = False\<rparr>],
     exec_results := [\<lparr>ver_conn = ex_conn, ver_han = 2, ver_ch = 2, ver_result = VResult VoltResult_zero,
        ver_err = Some ''first error'', ver_active = False\<rparr>]\<rparr>"


text \<open>The state after one \<^verbatim>\<open>QueryAsync\<close> in a fresh process, and after a failing \<^verbatim>\<open>Exec\<close> that follows it.\<close>

definition ex_world_one :: world where
  "ex_world_one =
     (case QueryAsync ex_ser_ok ex_conn ''proc'' [] world0 of
        Returns r w \<Rightarrow> w | Blocks w \<Rightarrow> world0 | Panics s \<Rightarrow> world0)"


section \<open>Unfolding the operations\<close>

lemmas op_defs = serializeQuery_def AddInt64_qHandle_def nl_registerExec_def nl_registerQuery_def
  nl_removeExec_def nl_removeQuery_def tcp_Write_def newVoltExecResult_def newVoltQueryResult_def
  registerExec_def registerQuery_def Let_def

lemmas ex_defs = ex_conn_def ex_ser_ok_def ex_ser_fail_def ex_world_broken_def world0_def
  ex_rows_a_def ex_rows_b_def ex_rows_failed_def ex_world_resolved_def

section \<open>Reading a resolved future\<close>

lemma Rows_resolved:
  "p < length (query_results w) \<Longrightarrow> \<not> vqr_active (query_results w ! p) \<Longrightarrow>
   Rows p rcv w =
     Returns (case vqr_err (query_results w ! p) of
                Some e \<Rightarrow> (NilRows, Some e)
              | None \<Rightarrow> (vqr_rows (query_results w ! p), None)) w"
  by (simp add: Rows_def Let_def split: option.splits)

lemma Result_resolved:
  "p < length (exec_results w) \<Longrightarrow> \<not> ver_active (exec_results w ! p) \<Longrightarrow>
   Result p rcv w = Returns (ver_result (exec_results w ! p), ver_err (exec_results w ! p)) w"
  by (simp add: Result_def Let_def)

text \<open>
  C6. A read of a resolved future returns the stored outcome (for a query future the stored
  error if there is one, else the stored rows; for an exec future the stored result and
  error), whatever the channel holds (\<open>rcv\<close> is arbitrary, and may be \<open>Never\<close>: the read does
  not block), and leaves the state as it was; a second read after the first returns the same.
\<close>

theorem resolved_read_repeatable:
  "(p < length (query_results w) \<and> \<not> vqr_active (query_results w ! p) \<longrightarrow>
      Rows p rcv w =
        Returns (case vqr_err (query_results w ! p) of
                   Some e \<Rightarrow> (NilRows, Some e)
                 | None \<Rightarrow> (vqr_rows (query_results w ! p), None)) w \<and>
      and_then (Rows p rcv w) (\<lambda>out w1. Rows p rcv' w1) = Rows p rcv w) \<and>
   (q < length (exec_results w) \<and> \<not> ver_active (exec_results w ! q) \<longrightarrow>
      Result q rcvr w = Returns (ver_result (exec_results w ! q), ver_err (exec_results w ! q)) w \<and>
      and_then (Result q rcvr w) (\<lambda>out w1. Result q rcvr' w1) = Result q rcvr w)"
  by (simp add: Rows_resolved Result_resolved)

theorem resolved_read_repeatable_witness:
  "Rows 0 Never ex_world_resolved = Returns (ex_rows_a, None) ex_world_resolved \<and>
   and_then (Rows 0 Never ex_world_resolved) (\<lambda>out w1. Rows 0 (Recv ex_rows_b) w1) =
     Rows 0 Never ex_world_resolved \<and>
   Result 0 Never ex_world_resolved =
     Returns (VResult VoltResult_zero, Some ''first error'') ex_world_resolved \<and>
   and_then (Result 0 Never ex_world_resolved) (\<lambda>out w1. Result 0 ChanClosed w1) =
     Result 0 Never ex_world_resolved"
proof -
  have a: "0 < length (query_results ex_world_resolved) \<and>
      \<not> vqr_active (query_results ex_world_resolved ! 0)"
    by (simp add: ex_world_resolved_def)
  have b: "0 < length (exec_results ex_world_resolved) \<and>
      \<not> ver_active (exec_results ex_world_resolved ! 0)"
    by (simp add: ex_world_resolved_def)
  have c: "(case vqr_err (query_results ex_world_resolved ! 0) of
              Some e \<Rightarrow> (NilRows, Some e)
            | None \<Rightarrow> (vqr_rows (query_results ex_world_resolved ! 0), None)) = (ex_rows_a, None)"
    by (simp add: ex_world_resolved_def)
  have d: "ver_result (exec_results ex_world_resolved ! 0) = VResult VoltResult_zero"
    "ver_err (exec_results ex_world_resolved ! 0) = Some ''first error''"
    by (simp_all add: ex_world_resolved_def)
  from resolved_read_repeatable [of 0 ex_world_resolved Never "Recv ex_rows_b" 0 Never ChanClosed] a b
  show ?thesis unfolding c d by blast
qed

section \<open>What serializeQuery reports\<close>

lemma serializeQuery_error_iff:
  "(\<exists>e w'. serializeQuery ser vc wr procedure handle args w = Returns (Some e) w') \<longleftrightarrow>
   (\<exists>e. ser procedure handle args = Inl e)"
  by (auto simp: serializeQuery_def Let_def split: sum.splits option.splits prod.splits)

text \<open>
  C10. \<^verbatim>\<open>serializeQuery\<close> returns a non-nil error exactly when \<^verbatim>\<open>serializeStatement\<close> does. When
  the statement serializes and the write to the connection fails (the connection is closed
  or broken), \<^verbatim>\<open>serializeQuery\<close> still returns nil and the state is unchanged. So on an
  open connection whose statement serializes, none of \<^verbatim>\<open>Exec\<close>, \<^verbatim>\<open>ExecAsync\<close>, \<^verbatim>\<open>Query\<close>,
  \<^verbatim>\<open>QueryAsync\<close> returns an error, whatever the network does.
\<close>

theorem write_failure_discarded:
  "((\<exists>e w'. serializeQuery ser vc wr procedure handle args w = Returns (Some e) w') \<longleftrightarrow>
      (\<exists>e. ser procedure handle args = Inl e)) \<and>
   (ser procedure handle args = Inr call \<and> (tcp_closed (tcps w r) \<or> tcp_broken (tcps w r)) \<longrightarrow>
      fst (tcp_Write r (writeInt (of_nat (length call)) @ call) w) = Some ''write failed'' \<and>
      serializeQuery ser vc (Some r) procedure handle args w = Returns None w) \<and>
   (isOpen vc \<and> ser query (qHandle w + 1) args = Inr call \<longrightarrow>
      (\<forall>res e w'. Exec ser rcvr vc query args w = Returns (res, e) w' \<longrightarrow> e = None) \<and>
      (\<forall>res e w'. ExecAsync ser vc query args w = Returns (res, e) w' \<longrightarrow> e = None) \<and>
      (\<forall>res e w'. Query ser rcvq vc query args w = Returns (res, e) w' \<longrightarrow> e = None) \<and>
      (\<forall>res e w'. QueryAsync ser vc query args w = Returns (res, e) w' \<longrightarrow> e = None))"
proof (intro conjI impI)
  show "(\<exists>e w'. serializeQuery ser vc wr procedure handle args w = Returns (Some e) w') \<longleftrightarrow>
      (\<exists>e. ser procedure handle args = Inl e)"
    by (rule serializeQuery_error_iff)
next
  assume "ser procedure handle args = Inr call \<and> (tcp_closed (tcps w r) \<or> tcp_broken (tcps w r))"
  then show "fst (tcp_Write r (writeInt (of_nat (length call)) @ call) w) = Some ''write failed''"
    and "serializeQuery ser vc (Some r) procedure handle args w = Returns None w"
    by (auto simp: serializeQuery_def tcp_Write_def Let_def)
next
  assume a: "isOpen vc \<and> ser query (qHandle w + 1) args = Inr call"
  then show "\<forall>res e w'. Exec ser rcvr vc query args w = Returns (res, e) w' \<longrightarrow> e = None"
    by (auto simp: Exec_def op_defs split: option.splits recv.splits prod.splits if_splits)
  from a show "\<forall>res e w'. ExecAsync ser vc query args w = Returns (res, e) w' \<longrightarrow> e = None"
    by (auto simp: ExecAsync_def op_defs split: option.splits recv.splits prod.splits if_splits)
  from a show "\<forall>res e w'. Query ser rcvq vc query args w = Returns (res, e) w' \<longrightarrow> e = None"
    by (auto simp: Query_def op_defs split: option.splits recv.splits prod.splits if_splits)
  from a show "\<forall>res e w'. QueryAsync ser vc query args w = Returns (res, e) w' \<longrightarrow> e = None"
    by (auto simp: QueryAsync_def op_defs split: option.splits recv.splits prod.splits if_splits)
qed

theorem write_failure_discarded_witness:
  "ex_ser_ok ''proc'' 1 [] = Inr [1, 2, 3] \<and> tcp_broken (tcps ex_world_broken 0) \<and>
   fst (tcp_Write 0 (writeInt 3 @ [1, 2, 3]) ex_world_broken) = Some ''write failed'' \<and>
   serializeQuery ex_ser_ok ex_conn (Some 0) ''proc'' 1 [] ex_world_broken = Returns None ex_world_broken \<and>
   isOpen ex_conn \<and>
   (\<exists>res w'. ExecAsync ex_ser_ok ex_conn ''proc'' [] ex_world_broken = Returns (res, None) w')"
proof -
  have a: "ex_ser_ok ''proc'' 1 [] = Inr [1, 2, 3]"
    by (simp add: ex_ser_ok_def)
  have b: "tcp_broken (tcps ex_world_broken 0)"
    by (simp add: ex_world_broken_def)
  have o: "isOpen ex_conn" by (simp add: ex_conn_def)
  have q: "qHandle ex_world_broken + 1 = 1" by (simp add: ex_world_broken_def world0_def)
  note t = write_failure_discarded [where ser = ex_ser_ok and procedure = "''proc''" and handle = 1
      and args = "[]" and call = "[1, 2, 3]" and w = ex_world_broken and r = 0 and vc = ex_conn
      and query = "''proc''"]
  from t a b have c: "fst (tcp_Write 0 (writeInt 3 @ [1, 2, 3]) ex_world_broken) = Some ''write failed''"
    "serializeQuery ex_ser_ok ex_conn (Some 0) ''proc'' 1 [] ex_world_broken = Returns None ex_world_broken"
    by simp_all
  obtain res e w' where x: "ExecAsync ex_ser_ok ex_conn ''proc'' [] ex_world_broken = Returns (res, e) w'"
    by (simp add: ExecAsync_def op_defs ex_defs)
  from t a o q have "\<forall>res e w'. ExecAsync ex_ser_ok ex_conn ''proc'' [] ex_world_broken = Returns (res, e) w'
      \<longrightarrow> e = None"
    by simp
  with x have "e = None" by blast
  with x have "\<exists>res w'. ExecAsync ex_ser_ok ex_conn ''proc'' [] ex_world_broken = Returns (res, None) w'"
    by blast
  with a b c o show ?thesis by simp
qed

section \<open>A request that could not be sent\<close>

text \<open>
  C3, as stated, fails: the write to a broken connection fails, and \<^verbatim>\<open>ExecAsync\<close> returns
  the future with a nil error; nothing was sent, and the handle stays in the listener's
  registry and in the connection's map.
\<close>

theorem write_failure_not_reported:
  "fst (tcp_Write 0 (writeInt 3 @ [1, 2, 3]) ex_world_broken) = Some ''write failed'' \<and>
   (case ExecAsync ex_ser_ok ex_conn ''proc'' [] ex_world_broken of
      Returns (res, err) w' \<Rightarrow>
        res = Some 0 \<and> err = None \<and> tcp_out (tcps w' 0) = [] \<and>
        1 \<in> set (nl_execs (listeners w' 0)) \<and> map_of (exec_maps w' 0) 1 = Some 0
    | Blocks w' \<Rightarrow> False
    | Panics s \<Rightarrow> False)"
  by (simp add: ExecAsync_def op_defs ex_defs)

text \<open>
  C3, amended. On an open connection, when serializing the request fails, each of the four
  calls returns that error at once, the handle it allocated (\<open>qHandle w + 1\<close>) is not in
  the listener's registry afterwards, and nothing is written; the synchronous calls leave
  the connection's maps as they were.
\<close>

theorem serialize_failure_deregisters:
  assumes "isOpen vc" and "ser query (qHandle w + 1) args = Inl e"
  shows
   "(\<exists>w1. Exec ser rcvr vc query args w = Returns (VResult VoltResult_zero, Some e) w1 \<and>
          handles_issued w1 = handles_issued w @ [qHandle w + 1] \<and>
          qHandle w + 1 \<notin> set (nl_execs (listeners w1 (netListener vc))) \<and>
          exec_maps w1 = exec_maps w \<and> query_maps w1 = query_maps w \<and> tcps w1 = tcps w) \<and>
    (\<exists>w1. ExecAsync ser vc query args w = Returns (None, Some e) w1 \<and>
          handles_issued w1 = handles_issued w @ [qHandle w + 1] \<and>
          qHandle w + 1 \<notin> set (nl_execs (listeners w1 (netListener vc))) \<and> tcps w1 = tcps w) \<and>
    (\<exists>w1. Query ser rcvq vc query args w = Returns (VRows VoltRows_zero, Some e) w1 \<and>
          handles_issued w1 = handles_issued w @ [qHandle w + 1] \<and>
          qHandle w + 1 \<notin> set (nl_queries (listeners w1 (netListener vc))) \<and>
          exec_maps w1 = exec_maps w \<and> query_maps w1 = query_maps w \<and> tcps w1 = tcps w) \<and>
    (\<exists>w1. QueryAsync ser vc query args w = Returns (None, Some e) w1 \<and>
          handles_issued w1 = handles_issued w @ [qHandle w + 1] \<and>
          qHandle w + 1 \<notin> set (nl_queries (listeners w1 (netListener vc))) \<and> tcps w1 = tcps w)"
proof (intro conjI)
  show "\<exists>w1. Exec ser rcvr vc query args w = Returns (VResult VoltResult_zero, Some e) w1 \<and>
          handles_issued w1 = handles_issued w @ [qHandle w + 1] \<and>
          qHandle w + 1 \<notin> set (nl_execs (listeners w1 (netListener vc))) \<and>
          exec_maps w1 = exec_maps w \<and> query_maps w1 = query_maps w \<and> tcps w1 = tcps w"
    using assms by (simp add: Exec_def op_defs)
  show "\<exists>w1. ExecAsync ser vc query args w = Returns (None, Some e) w1 \<and>
          handles_issued w1 = handles_issued w @ [qHandle w + 1] \<and>
          qHandle w + 1 \<notin> set (nl_execs (listeners w1 (netListener vc))) \<and> tcps w1 = tcps w"
    using assms by (simp add: ExecAsync_def op_defs)
  show "\<exists>w1. Query ser rcvq vc query args w = Returns (VRows VoltRows_zero, Some e) w1 \<and>
          handles_issued w1 = handles_issued w @ [qHandle w + 1] \<and>
          qHandle w + 1 \<notin> set (nl_queries (listeners w1 (netListener vc))) \<and>
          exec_maps w1 = exec_maps w \<and> query_maps w1 = query_maps w \<and> tcps w1 = tcps w"
    using assms by (simp add: Query_def op_defs)
  show "\<exists>w1. QueryAsync ser vc query args w = Returns (None, Some e) w1 \<and>
          handles_issued w1 = handles_issued w @ [qHandle w + 1] \<and>
          qHandle w + 1 \<notin> set (nl_queries (listeners w1 (netListener vc))) \<and> tcps w1 = tcps w"
    using assms by (simp add: QueryAsync_def op_defs)
qed

theorem serialize_failure_deregisters_witness:
  "isOpen ex_conn \<and> ex_ser_fail ''proc'' (qHandle world0 + 1) [] = Inl ''cannot serialize'' \<and>
   (\<exists>w1. Exec ex_ser_fail Never ex_conn ''proc'' [] world0 =
            Returns (VResult VoltResult_zero, Some ''cannot serialize'') w1 \<and>
          handles_issued w1 = [1] \<and> 1 \<notin> set (nl_execs (listeners w1 0))) \<and>
   (\<exists>w1. QueryAsync ex_ser_fail ex_conn ''proc'' [] world0 = Returns (None, Some ''cannot serialize'') w1 \<and>
          handles_issued w1 = [1] \<and> 1 \<notin> set (nl_queries (listeners w1 0)))"
proof -
  have a: "isOpen ex_conn" by (simp add: ex_conn_def)
  have b: "ex_ser_fail ''proc'' (qHandle world0 + 1) [] = Inl ''cannot serialize''"
    by (simp add: ex_ser_fail_def)
  have c: "qHandle world0 + 1 = 1" "handles_issued world0 = []" "netListener ex_conn = 0"
    by (simp_all add: world0_def ex_conn_def)
  from serialize_failure_deregisters [where vc = ex_conn and ser = ex_ser_fail and query = "''proc''"
      and w = world0 and args = "[]" and e = "''cannot serialize''" and rcvr = Never and rcvq = Never] a b
  show ?thesis unfolding c by auto
qed

text \<open>
  On that error path the async calls take the handle out of the listener's registry only:
  the entry made by \<^verbatim>\<open>vc.registerExec\<close> / \<^verbatim>\<open>vc.registerQuery\<close> stays in the connection's map.
\<close>

lemma async_serialize_failure_keeps_map_entry:
  assumes "isOpen vc" and "ser query (qHandle w + 1) args = Inl e"
  shows "\<exists>w1. ExecAsync ser vc query args w = Returns (None, Some e) w1 \<and>
           map_of (exec_maps w1 (execs vc)) (qHandle w + 1) = Some (length (exec_results w))"
    and "\<exists>w1. QueryAsync ser vc query args w = Returns (None, Some e) w1 \<and>
           map_of (query_maps w1 (queries vc)) (qHandle w + 1) = Some (length (query_results w))"
  using assms by (simp_all add: ExecAsync_def QueryAsync_def op_defs update_conv')

section \<open>Calls after Close\<close>

text \<open>
  C1, evaluated. \<^verbatim>\<open>Close\<close> sets \<^verbatim>\<open>isOpen = false\<close> on its receiver copy only. After
  \<^verbatim>\<open>Close\<close> on the open connection \<open>ex_conn\<close> the TCP connection is closed and the listener
  stopped, but the caller's struct still has \<open>isOpen\<close>; a following \<^verbatim>\<open>ExecAsync\<close> allocates
  handle 1, registers it and returns a future with a nil error, and a following \<^verbatim>\<open>Query\<close>
  allocates a handle and blocks.
\<close>

theorem Close_leaves_connection_open:
  "isOpen (fst (Close_body ex_conn world0)) = False \<and>
   (case Close ex_conn world0 of
      Returns err w1 \<Rightarrow>
        err = None \<and> tcp_closed (tcps w1 0) \<and> nl_stopped (listeners w1 0) \<and> isOpen ex_conn \<and>
        (case ExecAsync ex_ser_ok ex_conn ''proc'' [] w1 of
           Returns (res, e) w2 \<Rightarrow>
             res = Some 0 \<and> e = None \<and> handles_issued w2 = [1] \<and>
             1 \<in> set (nl_execs (listeners w2 0)) \<and> map_of (exec_maps w2 0) 1 = Some 0
         | Blocks w2 \<Rightarrow> False
         | Panics s \<Rightarrow> False) \<and>
        (case Query ex_ser_ok Never ex_conn ''proc'' [] w1 of
           Returns r w2 \<Rightarrow> False
         | Blocks w2 \<Rightarrow> handles_issued w2 = [1] \<and> 1 \<in> set (nl_queries (listeners w2 0))
         | Panics s \<Rightarrow> False)
    | Blocks w1 \<Rightarrow> False
    | Panics s \<Rightarrow> False)"
  by (simp add: Close_def Close_body_def nl_stop_def tcp_Close_def ExecAsync_def Query_def op_defs ex_defs)

text \<open>The guard itself works: a connection value with \<open>isOpen = False\<close> is refused, and nothing changes.\<close>

lemma closed_connection_refused:
  assumes "\<not> isOpen vc"
  shows "Exec ser rcvr vc query args w = Returns (NilResult, Some ''Connection is closed'') w"
    and "ExecAsync ser vc query args w = Returns (None, Some ''Connection is closed'') w"
    and "Query ser rcvq vc query args w = Returns (NilRows, Some ''Connection is closed'') w"
    and "QueryAsync ser vc query args w = Returns (None, Some ''Connection is closed'') w"
  using assms by (simp_all add: Exec_def ExecAsync_def Query_def QueryAsync_def)

section \<open>Resolving a future twice\<close>

text \<open>
  C2, evaluated. In \<open>ex_world_resolved\<close> the query future 0 is resolved with \<open>ex_rows_a\<close> and
  the exec future 0 with an error. \<^verbatim>\<open>setRows\<close> and both \<^verbatim>\<open>setError\<close> on them return normally and
  replace the stored outcome; only \<^verbatim>\<open>setResult\<close> panics.
\<close>

theorem second_resolution_overwrites:
  "\<not> vqr_active (query_results ex_world_resolved ! 0) \<and>
   vqr_rows (query_results ex_world_resolved ! 0) = ex_rows_a \<and>
   (case setRows 0 ex_rows_b ex_world_resolved of
      Returns u w' \<Rightarrow> vqr_rows (query_results w' ! 0) = ex_rows_b \<and> ex_rows_b \<noteq> ex_rows_a
    | Blocks w' \<Rightarrow> False
    | Panics s \<Rightarrow> False) \<and>
   (case vqr_setError 0 (Some ''late error'') ex_world_resolved of
      Returns u w' \<Rightarrow> vqr_err (query_results w' ! 0) = Some ''late error''
    | Blocks w' \<Rightarrow> False
    | Panics s \<Rightarrow> False) \<and>
   \<not> ver_active (exec_results ex_world_resolved ! 0) \<and>
   ver_err (exec_results ex_world_resolved ! 0) = Some ''first error'' \<and>
   (case ver_setError 0 (Some ''second error'') ex_world_resolved of
      Returns u w' \<Rightarrow> ver_err (exec_results w' ! 0) = Some ''second error''
    | Blocks w' \<Rightarrow> False
    | Panics s \<Rightarrow> False) \<and>
   setResult 0 NilResult ex_world_resolved = Panics ''Tried to set result on inactive exec result''"
  by (simp add: setRows_def vqr_setError_def ver_setError_def setResult_def removeQuery_def removeExec_def
      Let_def ex_defs)

section \<open>The error of a blocking call\<close>

text \<open>
  C7, evaluated. The response delivered to a synchronous \<^verbatim>\<open>Query\<close> carries an error;
  \<^verbatim>\<open>Query\<close> returns the rows object with a nil error. The async path does surface it:
  \<^verbatim>\<open>Rows()\<close> on the future of \<^verbatim>\<open>QueryAsync\<close> returns nil rows and the error for the same response.
\<close>

theorem Query_returns_failed_rows_without_error:
  "(case Query ex_ser_ok (Recv ex_rows_failed) ex_conn ''proc'' [] world0 of
      Returns (rows, err) w' \<Rightarrow> rows = ex_rows_failed \<and> err = None
    | Blocks w' \<Rightarrow> False
    | Panics s \<Rightarrow> False) \<and>
   (case QueryAsync ex_ser_ok ex_conn ''proc'' [] world0 of
      Returns (vqr, err) w' \<Rightarrow>
        vqr = Some 0 \<and> err = None \<and>
        (case Rows 0 (Recv ex_rows_failed) w' of
           Returns (rows, err') w'' \<Rightarrow> rows = NilRows \<and> err' = Some ''procedure failed''
         | Blocks w'' \<Rightarrow> False
         | Panics s \<Rightarrow> False)
    | Blocks w' \<Rightarrow> False
    | Panics s \<Rightarrow> False)"
  by (simp add: Query_def QueryAsync_def Rows_def vqr_setError_def removeQuery_def op_defs ex_defs)

section \<open>Drain\<close>

text \<open>Removing position \<open>k\<close> of a slice by moving the last element into it.\<close>

lemma swap_remove_length:
  "k < length xs \<Longrightarrow> length (butlast (xs[k := last xs])) = length xs - 1"
  by simp




lemma Drain_deliver_never_blocks: "Drain_deliver p sel w \<noteq> Blocks w'"
  by (auto simp: Drain_deliver_def vqr_setError_def setRows_def removeQuery_def Let_def
      split: selected.splits driver_Rows.splits option.splits if_splits)















section \<open>What a resolution does to the maps\<close>

lemma vqr_setError_effect:
  assumes "vqr_setError p err w = Returns u w'"
  shows "p < length (query_results w)"
    and "query_results w' = (query_results w)[p := (query_results w ! p)\<lparr>vqr_err := err, vqr_active := False\<rparr>]"
    and "query_maps w' = (query_maps w)(queries (vqr_conn (query_results w ! p)) :=
           AList.delete (vqr_han (query_results w ! p)) (query_maps w (queries (vqr_conn (query_results w ! p)))))"
    and "qHandle w' = qHandle w" and "handles_issued w' = handles_issued w"
    and "exec_maps w' = exec_maps w" and "exec_results w' = exec_results w"
  using assms by (auto simp: vqr_setError_def removeQuery_def Let_def split: if_splits)

lemma setRows_effect:
  assumes "setRows p rows w = Returns u w'"
  shows "p < length (query_results w)"
    and "query_results w' = (query_results w)[p := (query_results w ! p)\<lparr>vqr_rows := rows, vqr_active := False\<rparr>]"
    and "query_maps w' = (query_maps w)(queries (vqr_conn (query_results w ! p)) :=
           AList.delete (vqr_han (query_results w ! p)) (query_maps w (queries (vqr_conn (query_results w ! p)))))"
    and "qHandle w' = qHandle w" and "handles_issued w' = handles_issued w"
    and "exec_maps w' = exec_maps w" and "exec_results w' = exec_results w"
  using assms by (auto simp: setRows_def removeQuery_def Let_def split: if_splits)

lemma ver_setError_effect:
  assumes "ver_setError p err w = Returns u w'"
  shows "p < length (exec_results w)"
    and "exec_results w' = (exec_results w)[p := (exec_results w ! p)\<lparr>ver_err := err, ver_active := False\<rparr>]"
    and "exec_maps w' = (exec_maps w)(execs (ver_conn (exec_results w ! p)) :=
           AList.delete (ver_han (exec_results w ! p)) (exec_maps w (execs (ver_conn (exec_results w ! p)))))"
    and "qHandle w' = qHandle w" and "handles_issued w' = handles_issued w"
    and "query_maps w' = query_maps w" and "query_results w' = query_results w"
  using assms by (auto simp: ver_setError_def removeExec_def Let_def split: if_splits)

lemma setResult_effect:
  assumes "setResult p result w = Returns u w'"
  shows "p < length (exec_results w)"
    and "exec_results w' = (exec_results w)[p := (exec_results w ! p)\<lparr>ver_result := result, ver_active := False\<rparr>]"
    and "exec_maps w' = (exec_maps w)(execs (ver_conn (exec_results w ! p)) :=
           AList.delete (ver_han (exec_results w ! p)) (exec_maps w (execs (ver_conn (exec_results w ! p)))))"
    and "qHandle w' = qHandle w" and "handles_issued w' = handles_issued w"
    and "query_maps w' = query_maps w" and "query_results w' = query_results w"
  using assms by (auto simp: setResult_def removeExec_def Let_def split: if_splits)

text \<open>A resolution of a query future, abstractly.\<close>

lemma queries_inv_resolve:
  assumes inv: "queries_inv w" and p: "p < length (query_results w)"
    and qr: "query_results w' = (query_results w)[p := f']"
    and f': "\<not> vqr_active f'"
    and qm: "query_maps w' = (query_maps w)(queries (vqr_conn (query_results w ! p)) :=
           AList.delete (vqr_han (query_results w ! p)) (query_maps w (queries (vqr_conn (query_results w ! p)))))"
  shows "queries_inv w'"
  unfolding queries_inv_def
proof (rule conjI)
  show "\<forall>m. distinct (map fst (query_maps w' m))"
    using inv by (simp add: queries_inv_def qm distinct_delete)
next
  show "\<forall>m h q. map_of (query_maps w' m) h = Some q \<longrightarrow>
       q < length (query_results w') \<and> vqr_active (query_results w' ! q) \<and>
       vqr_han (query_results w' ! q) = h \<and> queries (vqr_conn (query_results w' ! q)) = m"
  proof (intro allI impI)
  fix m h q assume e: "map_of (query_maps w' m) h = Some q"
  let ?m0 = "queries (vqr_conn (query_results w ! p))" and ?h0 = "vqr_han (query_results w ! p)"
  have old: "map_of (query_maps w m) h = Some q"
    using e by (auto simp: qm delete_conv' split: if_splits)
  have ne: "\<not> (m = ?m0 \<and> h = ?h0)"
    using e by (auto simp: qm delete_conv')
  from inv old have o: "q < length (query_results w)" "vqr_active (query_results w ! q)"
    "vqr_han (query_results w ! q) = h" "queries (vqr_conn (query_results w ! q)) = m"
    by (auto simp: queries_inv_def)
  have "q \<noteq> p" using o ne by auto
  then show "q < length (query_results w') \<and> vqr_active (query_results w' ! q) \<and>
       vqr_han (query_results w' ! q) = h \<and> queries (vqr_conn (query_results w' ! q)) = m"
    using o by (simp add: qr)
  qed
qed

lemma queries_inv_vqr_setError:
  "queries_inv w \<Longrightarrow> vqr_setError p err w = Returns u w' \<Longrightarrow> queries_inv w'"
  using vqr_setError_effect [of p err w u w'] by (auto intro!: queries_inv_resolve [of w p w'])

lemma queries_inv_setRows:
  "queries_inv w \<Longrightarrow> setRows p rows w = Returns u w' \<Longrightarrow> queries_inv w'"
  using setRows_effect [of p rows w u w'] by (auto intro!: queries_inv_resolve [of w p w'])

lemma execs_inv_resolve:
  assumes inv: "execs_inv w" and p: "p < length (exec_results w)"
    and qr: "exec_results w' = (exec_results w)[p := f']"
    and f': "\<not> ver_active f'"
    and qm: "exec_maps w' = (exec_maps w)(execs (ver_conn (exec_results w ! p)) :=
           AList.delete (ver_han (exec_results w ! p)) (exec_maps w (execs (ver_conn (exec_results w ! p)))))"
  shows "execs_inv w'"
  unfolding execs_inv_def
proof (rule conjI)
  show "\<forall>m. distinct (map fst (exec_maps w' m))"
    using inv by (simp add: execs_inv_def qm distinct_delete)
next
  show "\<forall>m h q. map_of (exec_maps w' m) h = Some q \<longrightarrow>
       q < length (exec_results w') \<and> ver_active (exec_results w' ! q) \<and>
       ver_han (exec_results w' ! q) = h \<and> execs (ver_conn (exec_results w' ! q)) = m"
  proof (intro allI impI)
  fix m h q assume e: "map_of (exec_maps w' m) h = Some q"
  let ?m0 = "execs (ver_conn (exec_results w ! p))" and ?h0 = "ver_han (exec_results w ! p)"
  have old: "map_of (exec_maps w m) h = Some q"
    using e by (auto simp: qm delete_conv' split: if_splits)
  have ne: "\<not> (m = ?m0 \<and> h = ?h0)"
    using e by (auto simp: qm delete_conv')
  from inv old have o: "q < length (exec_results w)" "ver_active (exec_results w ! q)"
    "ver_han (exec_results w ! q) = h" "execs (ver_conn (exec_results w ! q)) = m"
    by (auto simp: execs_inv_def)
  have "q \<noteq> p" using o ne by auto
  then show "q < length (exec_results w') \<and> ver_active (exec_results w' ! q) \<and>
       ver_han (exec_results w' ! q) = h \<and> execs (ver_conn (exec_results w' ! q)) = m"
    using o by (simp add: qr)
  qed
qed

lemma execs_inv_setResult:
  "execs_inv w \<Longrightarrow> setResult p r w = Returns u w' \<Longrightarrow> execs_inv w'"
  using setResult_effect [of p r w u w'] by (auto intro!: execs_inv_resolve [of w p w'])

lemma execs_inv_ver_setError:
  "execs_inv w \<Longrightarrow> ver_setError p r w = Returns u w' \<Longrightarrow> execs_inv w'"
  using ver_setError_effect [of p r w u w'] by (auto intro!: execs_inv_resolve [of w p w'])

text \<open>The parts of the state an invariant reads.\<close>

lemma queries_inv_cong:
  "query_maps w' = query_maps w \<Longrightarrow> query_results w' = query_results w \<Longrightarrow>
   queries_inv w' = queries_inv w"
  by (simp add: queries_inv_def)

lemma execs_inv_cong:
  "exec_maps w' = exec_maps w \<Longrightarrow> exec_results w' = exec_results w \<Longrightarrow>
   execs_inv w' = execs_inv w"
  by (simp add: execs_inv_def)


lemma alloc_inv_cong:
  "qHandle w' = qHandle w \<Longrightarrow> handles_issued w' = handles_issued w \<Longrightarrow> alloc_inv w' = alloc_inv w"
  by (simp add: alloc_inv_def)

lemma alloc_inv_step:
  assumes "alloc_inv w" and "qHandle w' = qHandle w + 1"
    and "handles_issued w' = handles_issued w @ [qHandle w + 1]"
  shows "alloc_inv w'"
proof -
  let ?n = "length (handles_issued w)"
  from assms have q: "qHandle w = word_of_nat ?n"
    and h: "handles_issued w = map word_of_nat [1..<Suc ?n]"
    by (simp_all add: alloc_inv_def)
  have q': "qHandle w' = word_of_nat (Suc ?n)" using assms(2) q by simp
  have "handles_issued w' = map word_of_nat [1..<Suc ?n] @ [word_of_nat (Suc ?n)]"
    using assms(3) h q by simp
  also have "\<dots> = map word_of_nat [1..<Suc (Suc ?n)]" by simp
  finally have h': "handles_issued w' = map word_of_nat [1..<Suc (Suc ?n)]" .
  have l: "length (handles_issued w') = Suc ?n" using assms(3) by simp
  show ?thesis unfolding alloc_inv_def l using q' h' by simp
qed

lemma state_inv_frame:
  assumes "state_inv w"
    and "qHandle w' = qHandle w" "handles_issued w' = handles_issued w"
    and "exec_maps w' = exec_maps w" "exec_results w' = exec_results w"
    and "query_maps w' = query_maps w" "query_results w' = query_results w"
  shows "state_inv w'"
  using assms by (simp add: state_inv_def queries_inv_def execs_inv_def alloc_inv_def)

lemma Close_frame:
  assumes "world_after (Close vc w) = Some w'"
  shows "qHandle w' = qHandle w" "handles_issued w' = handles_issued w"
    "exec_maps w' = exec_maps w" "exec_results w' = exec_results w"
    "query_maps w' = query_maps w" "query_results w' = query_results w"
  using assms
  by (auto simp: Close_def Close_body_def nl_stop_def tcp_Close_def Let_def
      split: option.splits if_splits prod.splits)

lemma Exec_frame:
  assumes "world_after (Exec ser rcv vc query args w) = Some w'"
  shows "exec_maps w' = exec_maps w" "exec_results w' = exec_results w"
    "query_maps w' = query_maps w" "query_results w' = query_results w"
    "if isOpen vc then qHandle w' = qHandle w + 1 \<and> handles_issued w' = handles_issued w @ [qHandle w + 1]
     else w' = w"
  using assms
  by (auto simp: Exec_def op_defs split: if_splits sum.splits option.splits recv.splits prod.splits)

lemma Query_frame:
  assumes "world_after (Query ser rcv vc query args w) = Some w'"
  shows "exec_maps w' = exec_maps w" "exec_results w' = exec_results w"
    "query_maps w' = query_maps w" "query_results w' = query_results w"
    "if isOpen vc then qHandle w' = qHandle w + 1 \<and> handles_issued w' = handles_issued w @ [qHandle w + 1]
     else w' = w"
  using assms
  by (auto simp: Query_def op_defs split: if_splits sum.splits option.splits recv.splits prod.splits)

lemma ExecAsync_effect:
  assumes "world_after (ExecAsync ser vc query args w) = Some w'"
  shows "query_maps w' = query_maps w" "query_results w' = query_results w"
    "if isOpen vc then
       qHandle w' = qHandle w + 1 \<and> handles_issued w' = handles_issued w @ [qHandle w + 1] \<and>
       exec_results w' = exec_results w @
         [\<lparr>ver_conn = vc, ver_han = qHandle w + 1, ver_ch = qHandle w + 1, ver_result = NilResult,
           ver_err = None, ver_active = True\<rparr>] \<and>
       exec_maps w' = (exec_maps w)(execs vc :=
         AList.update (qHandle w + 1) (length (exec_results w)) (exec_maps w (execs vc)))
     else w' = w"
  using assms
  by (auto simp: ExecAsync_def op_defs split: if_splits sum.splits option.splits prod.splits)

lemma QueryAsync_effect:
  assumes "world_after (QueryAsync ser vc query args w) = Some w'"
  shows "exec_maps w' = exec_maps w" "exec_results w' = exec_results w"
    "if isOpen vc then
       qHandle w' = qHandle w + 1 \<and> handles_issued w' = handles_issued w @ [qHandle w + 1] \<and>
       query_results w' = query_results w @
         [\<lparr>vqr_conn = vc, vqr_han = qHandle w + 1, vqr_ch = qHandle w + 1, vqr_rows = NilRows,
           vqr_err = None, vqr_active = True\<rparr>] \<and>
       query_maps w' = (query_maps w)(queries vc :=
         AList.update (qHandle w + 1) (length (query_results w)) (query_maps w (queries vc)))
     else w' = w"
  using assms
  by (auto simp: QueryAsync_def op_defs split: if_splits sum.splits option.splits prod.splits)

lemma queries_inv_register:
  assumes inv: "queries_inv w"
    and qr: "query_results w' = query_results w @ [f]"
    and f: "vqr_active f" "vqr_han f = h" "queries (vqr_conn f) = m"
    and qm: "query_maps w' = (query_maps w)(m := AList.update h (length (query_results w)) (query_maps w m))"
  shows "queries_inv w'"
  unfolding queries_inv_def
proof (rule conjI)
  show "\<forall>m. distinct (map fst (query_maps w' m))"
    using inv by (simp add: queries_inv_def qm distinct_update)
next
  show "\<forall>m' h' q. map_of (query_maps w' m') h' = Some q \<longrightarrow>
       q < length (query_results w') \<and> vqr_active (query_results w' ! q) \<and>
       vqr_han (query_results w' ! q) = h' \<and> queries (vqr_conn (query_results w' ! q)) = m'"
  proof (intro allI impI)
    fix m' h' q assume e: "map_of (query_maps w' m') h' = Some q"
    show "q < length (query_results w') \<and> vqr_active (query_results w' ! q) \<and>
       vqr_han (query_results w' ! q) = h' \<and> queries (vqr_conn (query_results w' ! q)) = m'"
    proof (cases "m' = m \<and> h' = h")
      case True
      then have "q = length (query_results w)" using e by (simp add: qm update_conv')
      then show ?thesis using True f by (simp add: qr)
    next
      case False
      then have "map_of (query_maps w m') h' = Some q"
        using e by (auto simp: qm update_conv' split: if_splits)
      with inv have "q < length (query_results w)" "vqr_active (query_results w ! q)"
        "vqr_han (query_results w ! q) = h'" "queries (vqr_conn (query_results w ! q)) = m'"
        by (auto simp: queries_inv_def)
      then show ?thesis by (simp add: qr nth_append)
    qed
  qed
qed

lemma execs_inv_register:
  assumes inv: "execs_inv w"
    and qr: "exec_results w' = exec_results w @ [f]"
    and f: "ver_active f" "ver_han f = h" "execs (ver_conn f) = m"
    and qm: "exec_maps w' = (exec_maps w)(m := AList.update h (length (exec_results w)) (exec_maps w m))"
  shows "execs_inv w'"
  unfolding execs_inv_def
proof (rule conjI)
  show "\<forall>m. distinct (map fst (exec_maps w' m))"
    using inv by (simp add: execs_inv_def qm distinct_update)
next
  show "\<forall>m' h' q. map_of (exec_maps w' m') h' = Some q \<longrightarrow>
       q < length (exec_results w') \<and> ver_active (exec_results w' ! q) \<and>
       ver_han (exec_results w' ! q) = h' \<and> execs (ver_conn (exec_results w' ! q)) = m'"
  proof (intro allI impI)
    fix m' h' q assume e: "map_of (exec_maps w' m') h' = Some q"
    show "q < length (exec_results w') \<and> ver_active (exec_results w' ! q) \<and>
       ver_han (exec_results w' ! q) = h' \<and> execs (ver_conn (exec_results w' ! q)) = m'"
    proof (cases "m' = m \<and> h' = h")
      case True
      then have "q = length (exec_results w)" using e by (simp add: qm update_conv')
      then show ?thesis using True f by (simp add: qr)
    next
      case False
      then have "map_of (exec_maps w m') h' = Some q"
        using e by (auto simp: qm update_conv' split: if_splits)
      with inv have "q < length (exec_results w)" "ver_active (exec_results w ! q)"
        "ver_han (exec_results w ! q) = h'" "execs (ver_conn (exec_results w ! q)) = m'"
        by (auto simp: execs_inv_def)
      then show ?thesis by (simp add: qr nth_append)
    qed
  qed
qed

section \<open>Every operation keeps the invariants\<close>

lemma state_inv_world0: "state_inv world0"
  by (simp add: state_inv_def queries_inv_def execs_inv_def alloc_inv_def world0_def)

lemma state_inv_Close:
  "state_inv w \<Longrightarrow> world_after (Close vc w) = Some w' \<Longrightarrow> state_inv w'"
  using Close_frame [of vc w w'] by (intro state_inv_frame [of w w']) simp_all

lemma state_inv_alloc_only:
  assumes "state_inv w"
    and "exec_maps w' = exec_maps w" "exec_results w' = exec_results w"
    and "query_maps w' = query_maps w" "query_results w' = query_results w"
    and "qHandle w' = qHandle w + 1" "handles_issued w' = handles_issued w @ [qHandle w + 1]"
  shows "state_inv w'"
proof -
  have "alloc_inv w'" using assms by (intro alloc_inv_step [of w w']) (simp_all add: state_inv_def)
  moreover have "queries_inv w'" "execs_inv w'"
    using assms by (simp_all add: state_inv_def queries_inv_def execs_inv_def)
  ultimately show ?thesis by (simp add: state_inv_def)
qed

lemma state_inv_Exec:
  assumes "state_inv w" and "world_after (Exec ser rcv vc query args w) = Some w'"
  shows "state_inv w'"
proof (cases "isOpen vc")
  case True
  with Exec_frame [OF assms(2)] assms(1) show ?thesis by (intro state_inv_alloc_only [of w w']) simp_all
next
  case False
  with Exec_frame(5) [OF assms(2)] assms(1) show ?thesis by simp
qed

lemma state_inv_Query:
  assumes "state_inv w" and "world_after (Query ser rcv vc query args w) = Some w'"
  shows "state_inv w'"
proof (cases "isOpen vc")
  case True
  with Query_frame [OF assms(2)] assms(1) show ?thesis by (intro state_inv_alloc_only [of w w']) simp_all
next
  case False
  with Query_frame(5) [OF assms(2)] assms(1) show ?thesis by simp
qed

lemma state_inv_ExecAsync:
  assumes "state_inv w" and "world_after (ExecAsync ser vc query args w) = Some w'"
  shows "state_inv w'"
proof (cases "isOpen vc")
  case True
  note e = ExecAsync_effect [OF assms(2)]
  from e(3) True have a: "qHandle w' = qHandle w + 1"
    "handles_issued w' = handles_issued w @ [qHandle w + 1]"
    and r: "exec_results w' = exec_results w @
         [\<lparr>ver_conn = vc, ver_han = qHandle w + 1, ver_ch = qHandle w + 1, ver_result = NilResult,
           ver_err = None, ver_active = True\<rparr>]"
    and m: "exec_maps w' = (exec_maps w)(execs vc :=
         AList.update (qHandle w + 1) (length (exec_results w)) (exec_maps w (execs vc)))"
    by simp_all
  have "alloc_inv w'" using assms(1) a by (intro alloc_inv_step [of w w']) (simp_all add: state_inv_def)
  moreover have "queries_inv w'" using assms(1) e(1,2) by (simp add: state_inv_def queries_inv_def)
  moreover have "execs_inv w'"
    using assms(1) by (intro execs_inv_register [of w w', OF _ r _ _ _ m]) (simp_all add: state_inv_def)
  ultimately show ?thesis by (simp add: state_inv_def)
next
  case False
  with ExecAsync_effect(3) [OF assms(2)] assms(1) show ?thesis by simp
qed

lemma state_inv_QueryAsync:
  assumes "state_inv w" and "world_after (QueryAsync ser vc query args w) = Some w'"
  shows "state_inv w'"
proof (cases "isOpen vc")
  case True
  note e = QueryAsync_effect [OF assms(2)]
  from e(3) True have a: "qHandle w' = qHandle w + 1"
    "handles_issued w' = handles_issued w @ [qHandle w + 1]"
    and r: "query_results w' = query_results w @
         [\<lparr>vqr_conn = vc, vqr_han = qHandle w + 1, vqr_ch = qHandle w + 1, vqr_rows = NilRows,
           vqr_err = None, vqr_active = True\<rparr>]"
    and m: "query_maps w' = (query_maps w)(queries vc :=
         AList.update (qHandle w + 1) (length (query_results w)) (query_maps w (queries vc)))"
    by simp_all
  have "alloc_inv w'" using assms(1) a by (intro alloc_inv_step [of w w']) (simp_all add: state_inv_def)
  moreover have "execs_inv w'" using assms(1) e(1,2) by (simp add: state_inv_def execs_inv_def)
  moreover have "queries_inv w'"
    using assms(1) by (intro queries_inv_register [of w w', OF _ r _ _ _ m]) (simp_all add: state_inv_def)
  ultimately show ?thesis by (simp add: state_inv_def)
next
  case False
  with QueryAsync_effect(3) [OF assms(2)] assms(1) show ?thesis by simp
qed

lemma state_inv_vqr_setError:
  assumes "state_inv w" and "vqr_setError p err w = Returns u w'"
  shows "state_inv w'"
proof -
  note e = vqr_setError_effect [OF assms(2)]
  have "queries_inv w'" using assms(1) by (intro queries_inv_vqr_setError [of w, OF _ assms(2)]) (simp add: state_inv_def)
  moreover have "execs_inv w'" using assms(1) execs_inv_cong [OF e(6) e(7)] by (simp add: state_inv_def)
  moreover have "alloc_inv w'" using assms(1) alloc_inv_cong [OF e(4) e(5)] by (simp add: state_inv_def)
  ultimately show ?thesis by (simp add: state_inv_def)
qed

lemma state_inv_setRows:
  assumes "state_inv w" and "setRows p rows w = Returns u w'"
  shows "state_inv w'"
proof -
  note e = setRows_effect [OF assms(2)]
  have "queries_inv w'" using assms(1) by (intro queries_inv_setRows [of w, OF _ assms(2)]) (simp add: state_inv_def)
  moreover have "execs_inv w'" using assms(1) execs_inv_cong [OF e(6) e(7)] by (simp add: state_inv_def)
  moreover have "alloc_inv w'" using assms(1) alloc_inv_cong [OF e(4) e(5)] by (simp add: state_inv_def)
  ultimately show ?thesis by (simp add: state_inv_def)
qed

lemma state_inv_setResult:
  assumes "state_inv w" and "setResult p r w = Returns u w'"
  shows "state_inv w'"
proof -
  note e = setResult_effect [OF assms(2)]
  have "execs_inv w'" using assms(1) by (intro execs_inv_setResult [of w, OF _ assms(2)]) (simp add: state_inv_def)
  moreover have "queries_inv w'" using assms(1) queries_inv_cong [OF e(6) e(7)] by (simp add: state_inv_def)
  moreover have "alloc_inv w'" using assms(1) alloc_inv_cong [OF e(4) e(5)] by (simp add: state_inv_def)
  ultimately show ?thesis by (simp add: state_inv_def)
qed

lemma Rows_cases:
  assumes "world_after (Rows p rcv w) = Some w'"
  shows "w' = w \<or> (\<exists>e. vqr_setError p e w = Returns () w') \<or> (\<exists>r. setRows p r w = Returns () w')"
proof (cases "p < length (query_results w)")
  case False
  with assms show ?thesis by (simp add: Rows_def)
next
  case v: True
  show ?thesis
  proof (cases "vqr_active (query_results w ! p)")
    case False
    with assms v show ?thesis by (simp add: Rows_resolved)
  next
    case a: True
    show ?thesis
    proof (cases rcv)
      case Never
      with assms v a show ?thesis by (simp add: Rows_def Let_def)
    next
      case ChanClosed
      with assms v a show ?thesis by (simp add: Rows_def Let_def)
    next
      case (Recv rows)
      show ?thesis
      proof (cases rows)
        case NilRows
        with assms v a Recv show ?thesis by (simp add: Rows_def Let_def)
      next
        case (OtherRows t)
        with assms v a Recv show ?thesis by (simp add: Rows_def Let_def)
      next
        case (VRows vrows)
        show ?thesis
        proof (cases "rows_error vrows")
          case None
          obtain w1 where s: "setRows p rows w = Returns () w1"
            using v by (simp add: setRows_def Let_def)
          with assms v a Recv VRows None have "w' = w1" by (simp add: Rows_def Let_def)
          with s show ?thesis by blast
        next
          case (Some err)
          obtain w1 where s: "vqr_setError p (Some err) w = Returns () w1"
            using v by (simp add: vqr_setError_def Let_def)
          with assms v a Recv VRows Some have "w' = w1" by (simp add: Rows_def Let_def)
          with s show ?thesis by blast
        qed
      qed
    qed
  qed
qed

lemma state_inv_Rows:
  assumes "state_inv w" and "world_after (Rows p rcv w) = Some w'"
  shows "state_inv w'"
  using Rows_cases [OF assms(2)] assms(1) state_inv_vqr_setError state_inv_setRows by blast

lemma Result_cases:
  assumes "world_after (Result p rcv w) = Some w'"
  shows "w' = w \<or> (\<exists>r. setResult p r w = Returns () w')"
proof (cases "p < length (exec_results w)")
  case False
  with assms show ?thesis by (simp add: Result_def)
next
  case v: True
  show ?thesis
  proof (cases "ver_active (exec_results w ! p)")
    case False
    with assms v show ?thesis by (simp add: Result_resolved)
  next
    case a: True
    obtain r where r: "rcv = Never \<or> (Result p rcv w = and_then (setResult p r w)
         (\<lambda>u w'. Returns (ver_result (exec_results w' ! p), None) w'))"
      using v a by (cases rcv) (auto simp: Result_def Let_def)
    show ?thesis
    proof (cases "rcv = Never")
      case True
      with assms v a show ?thesis by (simp add: Result_def Let_def)
    next
      case False
      obtain w1 where s: "setResult p r w = Returns () w1"
        using v a by (simp add: setResult_def Let_def)
      with r False assms have "w' = w1" by simp
      with s show ?thesis by blast
    qed
  qed
qed

lemma state_inv_Result:
  assumes "state_inv w" and "world_after (Result p rcv w) = Some w'"
  shows "state_inv w'"
  using Result_cases [OF assms(2)] assms(1) state_inv_setResult by blast

lemma Drain_deliver_cases:
  assumes "Drain_deliver p sel w = Returns u w'"
  shows "(\<exists>e. vqr_setError p e w = Returns u w') \<or> (\<exists>r. setRows p r w = Returns u w')"
  using assms
  by (auto simp: Drain_deliver_def split: selected.splits driver_Rows.splits option.splits)

lemma state_inv_Drain_deliver:
  assumes "state_inv w" and "Drain_deliver p sel w = Returns u w'"
  shows "state_inv w'"
  using Drain_deliver_cases [OF assms(2)] assms(1) state_inv_vqr_setError state_inv_setRows by blast

lemma Drain_loop_preserves:
  assumes step: "\<And>p sel w u w'. P w \<Longrightarrow> Drain_deliver p sel w = Returns u w' \<Longrightarrow> P w'"
  shows "P w \<Longrightarrow> world_after (Drain_loop vqrs idxs cases sched w) = Some w' \<Longrightarrow> P w'"
proof (induction sched arbitrary: idxs cases w)
  case Nil
  then show ?case by (auto split: if_splits)
next
  case (Cons ev sched)
  obtain chosen sel where ev: "ev = (chosen, sel)" by (cases ev)
  show ?case
  proof (cases "idxs = []")
    case True
    with Cons.prems ev show ?thesis by simp
  next
    case ne: False
    let ?idx = "idxs ! chosen"
    let ?idxs' = "butlast (idxs[chosen := last idxs])"
    let ?cases' = "butlast (cases[chosen := last cases])"
    from Cons.prems(2) ev ne have ch: "chosen < length idxs" "chosen < length cases"
      by (auto split: if_splits)
    from Cons.prems(2) ev ne ch have ib: "?idx < length vqrs"
      by (auto simp: Let_def split: if_splits)
    from Cons.prems(2) ev ne ch ib obtain w1 where
      d: "Drain_deliver (vqrs ! ?idx) sel w = Returns () w1" and
      l: "world_after (Drain_loop vqrs ?idxs' ?cases' sched w1) = Some w'"
      using Drain_deliver_never_blocks [of "vqrs ! ?idx" sel w]
      by (cases "Drain_deliver (vqrs ! ?idx) sel w") (auto simp: Let_def)
    have "P w1" using Cons.prems(1) d by (rule step)
    then show ?thesis using l by (rule Cons.IH)
  qed
qed

lemma state_inv_Drain:
  assumes "state_inv w" and "world_after (Drain vc vqrs sched w) = Some w'"
  shows "state_inv w'"
proof -
  from assms(2) obtain idxs cases where
    l: "world_after (Drain_loop vqrs idxs cases sched w) = Some w'"
    by (auto simp: Drain_def split: option.splits)
  have s: "\<And>p sel w u w'. state_inv w \<Longrightarrow> Drain_deliver p sel w = Returns u w' \<Longrightarrow> state_inv w'"
    by (rule state_inv_Drain_deliver)
  show ?thesis
    by (rule Drain_loop_preserves [of state_inv, OF s assms(1) l])
qed

lemma world_after_and_then_Returns:
  "world_after (and_then x (\<lambda>r w'. Returns (f r) w')) = world_after x"
  by (cases x) simp_all

lemma DrainAll_eq:
  "DrainAll vc sched w =
     and_then (Drain vc (ExecutingQueries vc w) sched w)
       (\<lambda>rest w'. Returns (ExecutingQueries vc w, rest) w')"
  by (simp add: DrainAll_def ExecutingQueries_def Let_def)

lemma state_inv_DrainAll:
  assumes "state_inv w" and "world_after (DrainAll vc sched w) = Some w'"
  shows "state_inv w'"
proof -
  have "world_after (Drain vc (ExecutingQueries vc w) sched w) = Some w'"
    using assms(2) unfolding DrainAll_eq by (simp add: world_after_and_then_Returns)
  with assms(1) show ?thesis by (rule state_inv_Drain)
qed

lemma state_inv_network:
  "state_inv w \<Longrightarrow> state_inv (w\<lparr>tcps := t\<rparr>)"
  by (simp add: state_inv_def queries_inv_def execs_inv_def alloc_inv_def)

lemma reachable_state_inv: "reachable w \<Longrightarrow> state_inv w"
proof (induction rule: reachable.induct)
  case reachable_start
  show ?case by (rule state_inv_world0)
next
  case (reachable_network w r b)
  then show ?case by (intro state_inv_network)
next
  case (reachable_Close w vc w')
  then show ?case using state_inv_Close by blast
next
  case (reachable_Exec w ser rcvr vc query args w')
  then show ?case using state_inv_Exec by blast
next
  case (reachable_ExecAsync w ser vc query args w')
  then show ?case using state_inv_ExecAsync by blast
next
  case (reachable_Query w ser rcvq vc query args w')
  then show ?case using state_inv_Query by blast
next
  case (reachable_QueryAsync w ser vc query args w')
  then show ?case using state_inv_QueryAsync by blast
next
  case (reachable_Rows w p rcvq w')
  then show ?case using state_inv_Rows by blast
next
  case (reachable_Result w p rcvr w')
  then show ?case using state_inv_Result by blast
next
  case (reachable_Drain w vc vqrs sched w')
  then show ?case using state_inv_Drain by blast
next
  case (reachable_DrainAll w vc sched w')
  then show ?case using state_inv_DrainAll by blast
qed

section \<open>Handles\<close>









lemma ex_world_one_step:
  "world_after (QueryAsync ex_ser_ok ex_conn ''proc'' [] world0) = Some ex_world_one"
  by (simp add: ex_world_one_def QueryAsync_def op_defs ex_ser_ok_def ex_conn_def)

lemma ex_world_one_reachable: "reachable ex_world_one"
  using reachable_start ex_world_one_step by (rule reachable_QueryAsync)




section \<open>Outstanding futures are active\<close>

lemma ExecutingQueries_active:
  assumes "queries_inv w" and "p \<in> set (ExecutingQueries vc w)"
  shows "p < length (query_results w) \<and> vqr_active (query_results w ! p)"
proof -
  from assms(2) obtain h where "(h, p) \<in> set (query_maps w (queries vc))"
    by (auto simp: ExecutingQueries_def)
  moreover have "distinct (map fst (query_maps w (queries vc)))"
    using assms(1) by (simp add: queries_inv_def)
  ultimately have "map_of (query_maps w (queries vc)) h = Some p"
    by simp
  with assms(1) show ?thesis unfolding queries_inv_def by blast
qed

text \<open>
  C9. Each of the four setters, when it returns, leaves the future inactive and its handle
  absent from the map of the connection the future belongs to. In every state the process
  can reach, every entry of a connection's \<^verbatim>\<open>queries\<close> or \<^verbatim>\<open>execs\<close> map leads to an active
  future; so every future that \<^verbatim>\<open>ExecutingQueries\<close> returns is active, and \<^verbatim>\<open>DrainAll\<close> drains
  exactly that list.
\<close>

theorem outstanding_futures_active:
  "(setRows p rows w = Returns u w' \<longrightarrow>
      \<not> vqr_active (query_results w' ! p) \<and>
      map_of (query_maps w' (queries (vqr_conn (query_results w ! p)))) (vqr_han (query_results w ! p)) = None) \<and>
   (vqr_setError p err w = Returns u w' \<longrightarrow>
      \<not> vqr_active (query_results w' ! p) \<and>
      map_of (query_maps w' (queries (vqr_conn (query_results w ! p)))) (vqr_han (query_results w ! p)) = None) \<and>
   (setResult q result w = Returns u w' \<longrightarrow>
      \<not> ver_active (exec_results w' ! q) \<and>
      map_of (exec_maps w' (execs (ver_conn (exec_results w ! q)))) (ver_han (exec_results w ! q)) = None) \<and>
   (ver_setError q err w = Returns u w' \<longrightarrow>
      \<not> ver_active (exec_results w' ! q) \<and>
      map_of (exec_maps w' (execs (ver_conn (exec_results w ! q)))) (ver_han (exec_results w ! q)) = None) \<and>
   (reachable w \<longrightarrow>
      (\<forall>x \<in> set (ExecutingQueries vc w). x < length (query_results w) \<and> vqr_active (query_results w ! x)) \<and>
      (\<forall>h x. map_of (query_maps w (queries vc)) h = Some x \<longrightarrow>
          x < length (query_results w) \<and> vqr_active (query_results w ! x)) \<and>
      (\<forall>h x. map_of (exec_maps w (execs vc)) h = Some x \<longrightarrow>
          x < length (exec_results w) \<and> ver_active (exec_results w ! x)) \<and>
      DrainAll vc sched w =
        and_then (Drain vc (ExecutingQueries vc w) sched w)
          (\<lambda>rest w'. Returns (ExecutingQueries vc w, rest) w'))"
proof (intro conjI impI)
  assume a: "setRows p rows w = Returns u w'"
  note e = setRows_effect [OF a]
  show "\<not> vqr_active (query_results w' ! p)" using e(1) by (simp add: e(2))
  show "map_of (query_maps w' (queries (vqr_conn (query_results w ! p)))) (vqr_han (query_results w ! p)) = None"
    by (simp add: e(3) delete_conv')
next
  assume a: "vqr_setError p err w = Returns u w'"
  note e = vqr_setError_effect [OF a]
  show "\<not> vqr_active (query_results w' ! p)" using e(1) by (simp add: e(2))
  show "map_of (query_maps w' (queries (vqr_conn (query_results w ! p)))) (vqr_han (query_results w ! p)) = None"
    by (simp add: e(3) delete_conv')
next
  assume a: "setResult q result w = Returns u w'"
  note e = setResult_effect [OF a]
  show "\<not> ver_active (exec_results w' ! q)" using e(1) by (simp add: e(2))
  show "map_of (exec_maps w' (execs (ver_conn (exec_results w ! q)))) (ver_han (exec_results w ! q)) = None"
    by (simp add: e(3) delete_conv')
next
  assume a: "ver_setError q err w = Returns u w'"
  note e = ver_setError_effect [OF a]
  show "\<not> ver_active (exec_results w' ! q)" using e(1) by (simp add: e(2))
  show "map_of (exec_maps w' (execs (ver_conn (exec_results w ! q)))) (ver_han (exec_results w ! q)) = None"
    by (simp add: e(3) delete_conv')
next
  assume r: "reachable w"
  from reachable_state_inv [OF r] have qi: "queries_inv w" and ei: "execs_inv w"
    by (simp_all add: state_inv_def)
  show "\<forall>x \<in> set (ExecutingQueries vc w). x < length (query_results w) \<and> vqr_active (query_results w ! x)"
    using ExecutingQueries_active [OF qi] by blast
  show "\<forall>h x. map_of (query_maps w (queries vc)) h = Some x \<longrightarrow>
          x < length (query_results w) \<and> vqr_active (query_results w ! x)"
    using qi unfolding queries_inv_def by blast
  show "\<forall>h x. map_of (exec_maps w (execs vc)) h = Some x \<longrightarrow>
          x < length (exec_results w) \<and> ver_active (exec_results w ! x)"
    using ei unfolding execs_inv_def by blast
  show "DrainAll vc sched w =
        and_then (Drain vc (ExecutingQueries vc w) sched w)
          (\<lambda>rest w'. Returns (ExecutingQueries vc w, rest) w')"
    by (rule DrainAll_eq)
qed

theorem outstanding_futures_active_witness:
  "reachable ex_world_one \<and> ExecutingQueries ex_conn ex_world_one = [0] \<and>
   vqr_active (query_results ex_world_one ! 0) \<and>
   (\<exists>w'. setRows 0 ex_rows_a ex_world_one = Returns () w' \<and>
         \<not> vqr_active (query_results w' ! 0) \<and> map_of (query_maps w' 0) 1 = None \<and>
         ExecutingQueries ex_conn w' = [])"
proof -
  have x: "ExecutingQueries ex_conn ex_world_one = [0]"
    by (simp add: ExecutingQueries_def ex_world_one_def QueryAsync_def op_defs ex_ser_ok_def
        ex_conn_def world0_def)
  have f: "queries (vqr_conn (query_results ex_world_one ! 0)) = 0"
    "vqr_han (query_results ex_world_one ! 0) = 1"
    by (simp_all add: ex_world_one_def QueryAsync_def op_defs ex_ser_ok_def ex_conn_def world0_def)
  obtain w' where s: "setRows 0 ex_rows_a ex_world_one = Returns () w'"
    by (simp add: setRows_def ex_world_one_def QueryAsync_def op_defs ex_ser_ok_def
        ex_conn_def world0_def)
  note t = outstanding_futures_active [where w = ex_world_one and vc = ex_conn and p = 0
      and rows = ex_rows_a and u = "()" and w' = w']
  from mp [OF conjunct1 [OF t] s]
  have a: "\<not> vqr_active (query_results w' ! 0)" "map_of (query_maps w' 0) 1 = None"
    unfolding f by simp_all
  from mp [OF conjunct2 [OF conjunct2 [OF conjunct2 [OF conjunct2 [OF t]]]] ex_world_one_reachable]
  have "\<forall>x \<in> set (ExecutingQueries ex_conn ex_world_one).
      x < length (query_results ex_world_one) \<and> vqr_active (query_results ex_world_one ! x)"
    by (rule conjunct1)
  then have b: "vqr_active (query_results ex_world_one ! 0)" unfolding x by simp
  have c: "ExecutingQueries ex_conn w' = []"
    using s by (auto simp: ExecutingQueries_def setRows_def removeQuery_def ex_world_one_def
        QueryAsync_def op_defs ex_ser_ok_def ex_conn_def world0_def split: if_splits)
  from s a c have "\<exists>w'. setRows 0 ex_rows_a ex_world_one = Returns () w' \<and>
         \<not> vqr_active (query_results w' ! 0) \<and> map_of (query_maps w' 0) 1 = None \<and>
         ExecutingQueries ex_conn w' = []"
    by (intro exI [of _ w']) simp
  with ex_world_one_reachable x b show ?thesis by simp
qed

end
